theory Spec2Isabelle
  imports Main "HOL-Library.Sublist"
begin

section \<open>Text primitives\<close>

text \<open>
  Python strings are modelled as \<^typ>\<open>string\<close>; the development is about ASCII text.
  \<open>is_space\<close> is the class \<^verbatim>\<open>\s\<close> of \<^verbatim>\<open>re\<close> on \<^verbatim>\<open>str\<close> patterns and, at the same time,
  the set of characters that \<^verbatim>\<open>str.strip()\<close> removes (code points below 128:
  TAB, LF, VT, FF, CR, FS, GS, RS, US and the blank). \<open>is_word\<close> is \<^verbatim>\<open>\w\<close> below 128.
\<close>

definition is_space :: "char \<Rightarrow> bool" where
  "is_space c = (c \<in> set [CHR 0x09, CHR ''\<newline>'', CHR 0x0B, CHR 0x0C, CHR 0x0D,
                            CHR 0x1C, CHR 0x1D, CHR 0x1E, CHR 0x1F, CHR '' ''])"

definition is_word :: "char \<Rightarrow> bool" where
  "is_word c = (let n = (of_char c :: nat) in
     (48 \<le> n \<and> n \<le> 57) \<or> (65 \<le> n \<and> n \<le> 90) \<or> n = 95 \<or> (97 \<le> n \<and> n \<le> 122))"

definition strip :: "string \<Rightarrow> string" where
  "strip s = rev (dropWhile is_space (rev (dropWhile is_space s)))"

text \<open>\<^verbatim>\<open>s.split('\n', 1)[0]\<close> and \<^verbatim>\<open>s.split('\n', 1)[1] if '\n' in s else ''\<close>.\<close>

definition first_line_of :: "string \<Rightarrow> string" where
  "first_line_of s = takeWhile (\<lambda>c. c \<noteq> CHR ''\<newline>'') s"

definition after_first_line :: "string \<Rightarrow> string" where
  "after_first_line s =
     (if CHR ''\<newline>'' \<in> set s then tl (dropWhile (\<lambda>c. c \<noteq> CHR ''\<newline>'') s) else [])"

text \<open>\<^verbatim>\<open>sub in s\<close> on strings.\<close>

fun contains :: "string \<Rightarrow> string \<Rightarrow> bool" where
  "contains sub [] = (sub = [])"
| "contains sub (c # s) = (prefix sub (c # s) \<or> contains sub s)"

text \<open>\<^verbatim>\<open>sep.join(parts)\<close>.\<close>

fun join :: "string \<Rightarrow> string list \<Rightarrow> string" where
  "join sep [] = []"
| "join sep [x] = x"
| "join sep (x # y # ys) = x @ sep @ join sep (y # ys)"

text \<open>
  Splitting at every character of a class, as \<^verbatim>\<open>re.split\<close> does for a one-character
  pattern, and \<^verbatim>\<open>s.split(sep)\<close> for a one-character separator.
\<close>

fun split_when :: "(char \<Rightarrow> bool) \<Rightarrow> string \<Rightarrow> string list" where
  "split_when P [] = [[]]"
| "split_when P (c # s) =
     (if P c then [] # split_when P s
      else (case split_when P s of [] \<Rightarrow> [[c]] | w # ws \<Rightarrow> (c # w) # ws))"

definition split_on :: "char \<Rightarrow> string \<Rightarrow> string list" where
  "split_on sep s = split_when (\<lambda>c. c = sep) s"

text \<open>\<^verbatim>\<open>s.lower()\<close> on ASCII letters.\<close>

definition lower_char :: "char \<Rightarrow> char" where
  "lower_char c =
     (if 65 \<le> (of_char c :: nat) \<and> (of_char c :: nat) \<le> 90 then char_of ((of_char c :: nat) + 32) else c)"

definition lower :: "string \<Rightarrow> string" where
  "lower s = map lower_char s"

section \<open>Fenced blocks: \<^verbatim>\<open>CODE_BLOCK_PATTERN.finditer\<close>\<close>

definition fence :: string where
  "fence = ''```''"

text \<open>
  The tail \<^verbatim>\<open>\n\s*```\<close> of the pattern, tried at the head of a text: the text after the
  closing fence when it matches. Greedy \<^verbatim>\<open>\s*\<close> has no second way to succeed, since a
  backquote is no space.
\<close>

definition close_fence :: "string \<Rightarrow> string option" where
  "close_fence s =
     (case s of
        [] \<Rightarrow> None
      | c # r \<Rightarrow>
          if c = CHR ''\<newline>'' \<and> prefix fence (dropWhile is_space r)
          then Some (drop 3 (dropWhile is_space r)) else None)"

text \<open>
  The lazy group \<^verbatim>\<open>(.*?)\<close> under DOTALL followed by the closing tail: the shortest body
  after which the tail matches, and the text after the match.
\<close>

fun lazy_body :: "string \<Rightarrow> (string \<times> string) option" where
  "lazy_body [] = None"
| "lazy_body (c # s) =
     (case close_fence (c # s) of
        Some r \<Rightarrow> Some ([], r)
      | None \<Rightarrow> (case lazy_body s of None \<Rightarrow> None | Some (b, r) \<Rightarrow> Some (c # b, r)))"

text \<open>
  One match of \<^verbatim>\<open>```(\w*)\n(.*?)\n\s*```\<close> (\<^verbatim>\<open>main.py\<close>) anchored at the head of the
  text: language tag, body, and the text after the match.
\<close>

definition match_block :: "string \<Rightarrow> (string \<times> string \<times> string) option" where
  "match_block s =
     (if prefix fence s then
        (case dropWhile is_word (drop 3 s) of
           [] \<Rightarrow> None
         | c # v \<Rightarrow>
             if c = CHR ''\<newline>'' then
               (case lazy_body v of
                  None \<Rightarrow> None
                | Some (b, r) \<Rightarrow> Some (takeWhile is_word (drop 3 s), b, r))
             else None)
      else None)"

function finditer :: "string \<Rightarrow> (string \<times> string) list" where
  "finditer [] = []"
| "finditer (c # s) =
     (case match_block (c # s) of
        Some (l, b, r) \<Rightarrow> (l, b) # finditer r
      | None \<Rightarrow> finditer s)"
  by pat_completeness auto

lemma close_fence_length: "close_fence s = Some r \<Longrightarrow> length r < length s"
proof -
  assume a: "close_fence s = Some r"
  then obtain c t where s: "s = c # t" and r: "r = drop 3 (dropWhile is_space t)"
    by (auto simp: close_fence_def split: list.splits if_splits)
  have "length (dropWhile is_space t) \<le> length t"
    by (rule length_dropWhile_le)
  with s r show ?thesis by simp
qed

lemma lazy_body_length: "lazy_body s = Some (b, r) \<Longrightarrow> length r < length s"
proof (induction s arbitrary: b r)
  case Nil
  then show ?case by simp
next
  case (Cons c s)
  show ?case
  proof (cases "close_fence (c # s)")
    case (Some r')
    with Cons.prems have "r = r'" by simp
    with Some show ?thesis using close_fence_length by blast
  next
    case None
    with Cons.prems obtain b' where "lazy_body s = Some (b', r)"
      by (auto split: option.splits)
    then have "length r < length s" by (rule Cons.IH)
    then show ?thesis by simp
  qed
qed

lemma match_block_length: "match_block s = Some (l, b, r) \<Longrightarrow> length r < length s"
proof -
  assume a: "match_block s = Some (l, b, r)"
  then obtain c v where d: "dropWhile is_word (drop 3 s) = c # v" and lb: "lazy_body v = Some (b, r)"
    by (auto simp: match_block_def split: if_splits list.splits option.splits)
  have "length (dropWhile is_word (drop 3 s)) \<le> length (drop 3 s)"
    by (rule length_dropWhile_le)
  with d have "length v < length s" by simp
  with lazy_body_length [OF lb] show ?thesis by simp
qed

termination finditer
proof (relation "measure length")
  show "wf (measure length)" by simp
next
  fix c s x2 l y b r
  assume "match_block (c # s) = Some x2" "(l, y) = x2" "(b, r) = y"
  then have "match_block (c # s) = Some (l, b, r)" by simp
  then show "(r, c # s) \<in> measure length"
    using match_block_length by fastforce
next
  fix c s
  show "(s, c # s) \<in> measure length" by simp
qed

section \<open>The path comment: \<^verbatim>\<open>PATH_COMMENT_PATTERN.match\<close>\<close>

text \<open>
  The pattern of \<^verbatim>\<open>main.py\<close> is
  \<^verbatim>\<open>^\s*(?:<!--\s*)?([#|//|;]+)?\s*(\S+)(?:\s*-->)?\<close>.
  Its bracket is a character class: it holds the four characters \<open>#\<close>, \<open>|\<close>, \<open>/\<close>
  and \<open>;\<close>.
\<close>

definition in_marker_class :: "char \<Rightarrow> bool" where
  "in_marker_class c = (c \<in> set ''#|/;'')"

text \<open>
  \<^verbatim>\<open>([#|//|;]+)?\s*(\S+)\<close> at the head of a text, with the choices of the backtracking
  matcher in its order: the longest run of marker characters first; when only spaces
  follow that run, the run gives its last character back to the path group; a run of
  one character is then given up altogether (group 1 does not take part). The result is
  (group 1, group 2).
\<close>

definition marker_path :: "string \<Rightarrow> (string option \<times> string) option" where
  "marker_path s =
     (let cls = takeWhile in_marker_class s;
          after = dropWhile is_space (dropWhile in_marker_class s)
      in if cls = [] then
           (if after = [] then None else Some (None, takeWhile (\<lambda>c. \<not> is_space c) after))
         else if after \<noteq> [] then Some (Some cls, takeWhile (\<lambda>c. \<not> is_space c) after)
         else if 2 \<le> length cls then Some (Some (butlast cls), [last cls])
         else Some (None, cls))"

text \<open>
  The whole pattern: leading spaces, then the optional \<^verbatim>\<open><!--\s*\<close>, which is given up
  when nothing matches after it. The optional closing \<^verbatim>\<open>\s*-->\<close> binds no group.
\<close>

definition path_comment_match :: "string \<Rightarrow> (string option \<times> string) option" where
  "path_comment_match line =
     (let s0 = dropWhile is_space line in
      case (if prefix ''<!--'' s0 then marker_path (dropWhile is_space (drop 4 s0)) else None) of
        Some g \<Rightarrow> Some g
      | None \<Rightarrow> marker_path s0)"

section \<open>File records and the codec of \<^verbatim>\<open>main.py\<close>\<close>

record FileInfo =
  rel_path :: string
  content :: string
  language :: string
  comment_symbol :: string

text \<open>
  A Python \<^verbatim>\<open>dict\<close> keeps its keys in insertion order; storing under a key that is
  present replaces the value where the key stands.
\<close>

fun dict_set :: "('k \<times> 'v) list \<Rightarrow> 'k \<Rightarrow> 'v \<Rightarrow> ('k \<times> 'v) list" where
  "dict_set [] k v = [(k, v)]"
| "dict_set ((k', v') # d) k v =
     (if k' = k then (k', v) # d else (k', v') # dict_set d k v)"

text \<open>The body of the loop of \<^verbatim>\<open>_parse_text_to_tree\<close> for one match (group 1, group 2).\<close>

definition parse_block :: "string \<times> string \<Rightarrow> FileInfo option" where
  "parse_block m =
     (let block_content = strip (snd m) in
      case path_comment_match (first_line_of block_content) of
        None \<Rightarrow> None
      | Some (g1, g2) \<Rightarrow>
          Some \<lparr>rel_path = strip g2,
                content = after_first_line block_content,
                language = fst m,
                comment_symbol = (case g1 of None \<Rightarrow> [] | Some g \<Rightarrow> g)\<rparr>)"

definition parse_step :: "(string \<times> FileInfo) list \<Rightarrow> string \<times> string \<Rightarrow> (string \<times> FileInfo) list" where
  "parse_step d m = (case parse_block m of None \<Rightarrow> d | Some fi \<Rightarrow> dict_set d (rel_path fi) fi)"

text \<open>
  \<^verbatim>\<open>_parse_text_to_tree\<close>: the new value of \<^verbatim>\<open>self.file_data\<close>, from its old value and
  the text of the text area. A blank text returns early and leaves the data as it is.
\<close>

definition parse_text_to_tree :: "FileInfo list \<Rightarrow> string \<Rightarrow> FileInfo list" where
  "parse_text_to_tree file_data full_content =
     (if strip full_content = [] then file_data
      else map snd (foldl parse_step [] (finditer full_content)))"

text \<open>\<^verbatim>\<open>_regenerate_combined_text\<close>: the text set into the text area.\<close>

definition comment_line :: "FileInfo \<Rightarrow> string" where
  "comment_line fi =
     (if contains ''<!--'' (comment_symbol fi) then ''<!-- '' @ rel_path fi @ '' -->\<newline>''
      else if comment_symbol fi \<noteq> [] then comment_symbol fi @ '' '' @ rel_path fi @ ''\<newline>''
      else [])"

definition block_of :: "FileInfo \<Rightarrow> string" where
  "block_of fi =
     ''```'' @ language fi @ ''\<newline>'' @ comment_line fi @ strip (content fi) @ ''\<newline>''
       @ ''```\<newline>''"

definition regenerate_combined_text :: "FileInfo list \<Rightarrow> string" where
  "regenerate_combined_text file_data = join ''\<newline>'' (map block_of file_data)"

section \<open>Reconstruction: \<^verbatim>\<open>_task_reconstruction\<close> of \<^verbatim>\<open>main.py\<close>\<close>

text \<open>\<^verbatim>\<open>INVALID_PATH_CHARS_PATTERN.search\<close>: one of \<^verbatim>\<open>< > : " | ? *\<close> occurs.\<close>

definition has_invalid_char :: "string \<Rightarrow> bool" where
  "has_invalid_char s =
     list_ex (\<lambda>c. c \<in> set [CHR ''<'', CHR ''>'', CHR '':'', CHR 0x22, CHR ''|'', CHR ''?'', CHR ''*'']) s"

text \<open>\<^verbatim>\<open>os.path.join(a, b)\<close> of \<^verbatim>\<open>posixpath\<close>: an absolute second part replaces the first.\<close>

definition path_join :: "string \<Rightarrow> string \<Rightarrow> string" where
  "path_join a b =
     (if prefix ''/'' b then b
      else if a = [] \<or> last a = CHR ''/'' then a @ b
      else a @ ''/'' @ b)"

record recon_stats =
  created :: nat
  error :: nat
  invalid_path :: nat

text \<open>
  The file system is the association of the files written to their content. The
  parameter \<open>io_fails\<close> says for which destinations \<^verbatim>\<open>os.makedirs\<close> or \<^verbatim>\<open>open\<close> raises
  \<^verbatim>\<open>OSError\<close>; \<open>cancelled i\<close> says whether the worker's flag is found set when the
  loop reaches record \<open>i\<close>.
\<close>

type_synonym filesystem = "(string \<times> string) list"

definition reconstruct_step ::
  "(string \<Rightarrow> bool) \<Rightarrow> string \<Rightarrow> filesystem \<times> recon_stats \<Rightarrow> FileInfo \<Rightarrow> filesystem \<times> recon_stats" where
  "reconstruct_step io_fails output_path st fi =
     (if ''..'' \<in> set (split_on CHR ''/'' (rel_path fi)) \<or> has_invalid_char (rel_path fi)
      then (fst st, (snd st)\<lparr>invalid_path := invalid_path (snd st) + 1\<rparr>)
      else if io_fails (path_join output_path (rel_path fi))
      then (fst st, (snd st)\<lparr>error := error (snd st) + 1\<rparr>)
      else (dict_set (fst st) (path_join output_path (rel_path fi)) (content fi),
            (snd st)\<lparr>created := created (snd st) + 1\<rparr>))"

fun reconstruct_loop ::
  "(string \<Rightarrow> bool) \<Rightarrow> (nat \<Rightarrow> bool) \<Rightarrow> string \<Rightarrow> nat \<Rightarrow> FileInfo list
     \<Rightarrow> filesystem \<times> recon_stats \<Rightarrow> filesystem \<times> recon_stats" where
  "reconstruct_loop io_fails cancelled output_path i [] st = st"
| "reconstruct_loop io_fails cancelled output_path i (fi # fis) st =
     (if cancelled i then st
      else reconstruct_loop io_fails cancelled output_path (Suc i) fis
             (reconstruct_step io_fails output_path st fi))"

definition task_reconstruction ::
  "(string \<Rightarrow> bool) \<Rightarrow> (nat \<Rightarrow> bool) \<Rightarrow> filesystem \<Rightarrow> string \<Rightarrow> FileInfo list
     \<Rightarrow> filesystem \<times> recon_stats" where
  "task_reconstruction io_fails cancelled fs output_path file_data =
     reconstruct_loop io_fails cancelled output_path 0 file_data
       (fs, \<lparr>created = 0, error = 0, invalid_path = 0\<rparr>)"

text \<open>The keys of a list in the order of their first occurrences.\<close>

fun first_occurrences :: "'a list \<Rightarrow> 'a list" where
  "first_occurrences [] = []"
| "first_occurrences (x # xs) = x # first_occurrences (filter (\<lambda>y. y \<noteq> x) xs)"

text \<open>Storing one pair, and the records of the accepted blocks in the order of the document.\<close>

definition dict_put :: "('k \<times> 'v) list \<Rightarrow> 'k \<times> 'v \<Rightarrow> ('k \<times> 'v) list" where
  "dict_put d kv = dict_set d (fst kv) (snd kv)"

definition accepted_records :: "string \<Rightarrow> FileInfo list" where
  "accepted_records t = List.map_filter parse_block (finditer t)"

definition last_with :: "('v \<Rightarrow> 'k) \<Rightarrow> 'v list \<Rightarrow> 'k \<Rightarrow> 'v" where
  "last_with f xs k = last (filter (\<lambda>x. f x = k) xs)"

section \<open>Exclusion rules of \<^verbatim>\<open>main.py\<close>\<close>

text \<open>
  \<^verbatim>\<open>fnmatch.fnmatch\<close> of the Python library on a POSIX system (\<^verbatim>\<open>normcase\<close> is the
  identity): the pattern is read into tokens, \<open>*\<close> for any text, \<open>?\<close> for one character,
  a bracket expression for one character of a class (negated after \<open>!\<close>), any other
  character for itself; a bracket that is not closed stands for itself. The whole name
  must match.
\<close>

datatype glob_token = Star | AnyChar | Lit char | CharClass bool string

text \<open>
  After an opening bracket: the text of the class and the pattern after the closing
  bracket. A \<open>!\<close> and a closing bracket right at the start belong to the class.
\<close>

definition bracket_split :: "string \<Rightarrow> (string \<times> string) option" where
  "bracket_split s =
     (let bang = takeWhile (\<lambda>c. c = CHR ''!'') (take 1 s);
          s1 = drop (length bang) s;
          first = takeWhile (\<lambda>c. c = CHR '']'') (take 1 s1);
          s2 = drop (length first) s1
      in if CHR '']'' \<in> set s2
         then Some (bang @ first @ takeWhile (\<lambda>c. c \<noteq> CHR '']'') s2,
                    tl (dropWhile (\<lambda>c. c \<noteq> CHR '']'') s2))
         else None)"

function glob_tokens :: "string \<Rightarrow> glob_token list" where
  "glob_tokens [] = []"
| "glob_tokens (c # s) =
     (if c = CHR ''*'' then Star # glob_tokens s
      else if c = CHR ''?'' then AnyChar # glob_tokens s
      else if c = CHR ''['' then
        (case bracket_split s of
           None \<Rightarrow> Lit c # glob_tokens s
         | Some (stuff, rest) \<Rightarrow>
             (if prefix ''!'' stuff then CharClass True (tl stuff) # glob_tokens rest
              else CharClass False stuff # glob_tokens rest))
      else Lit c # glob_tokens s)"
  by pat_completeness auto

lemma bracket_split_length: "bracket_split s = Some (stuff, rest) \<Longrightarrow> length rest < length s"
proof -
  assume a: "bracket_split s = Some (stuff, rest)"
  define s1 where "s1 = drop (length (takeWhile (\<lambda>c. c = CHR ''!'') (take 1 s))) s"
  define s2 where "s2 = drop (length (takeWhile (\<lambda>c. c = CHR '']'') (take 1 s1))) s1"
  from a have in2: "CHR '']'' \<in> set s2" and r: "rest = tl (dropWhile (\<lambda>c. c \<noteq> CHR '']'') s2)"
    by (auto simp: bracket_split_def Let_def s1_def s2_def split: if_splits)
  from in2 have "dropWhile (\<lambda>c. c \<noteq> CHR '']'') s2 \<noteq> []"
    by (auto simp: dropWhile_eq_Nil_conv)
  then have "length rest < length (dropWhile (\<lambda>c. c \<noteq> CHR '']'') s2)"
    using r by (cases "dropWhile (\<lambda>c. c \<noteq> CHR '']'') s2") auto
  also have "\<dots> \<le> length s2" by (rule length_dropWhile_le)
  also have "\<dots> \<le> length s" by (simp add: s1_def s2_def)
  finally show ?thesis .
qed

termination glob_tokens
  by (relation "measure length") (auto dest: bracket_split_length)

text \<open>Membership in a class text: \<open>x-y\<close> is a range, any other character stands for itself.\<close>

fun class_mem :: "char \<Rightarrow> string \<Rightarrow> bool" where
  "class_mem c (x # d # y # r) =
     (if d = CHR ''-'' then ((of_char x :: nat) \<le> of_char c \<and> (of_char c :: nat) \<le> of_char y) \<or> class_mem c r
      else c = x \<or> class_mem c (d # y # r))"
| "class_mem c (x # r) = (c = x \<or> class_mem c r)"
| "class_mem c [] = False"

fun tokens_match :: "glob_token list \<Rightarrow> string \<Rightarrow> bool" where
  "tokens_match [] s = (s = [])"
| "tokens_match (Star # ts) [] = tokens_match ts []"
| "tokens_match (Star # ts) (c # s) = (tokens_match ts (c # s) \<or> tokens_match (Star # ts) s)"
| "tokens_match (AnyChar # ts) [] = False"
| "tokens_match (AnyChar # ts) (c # s) = tokens_match ts s"
| "tokens_match (Lit x # ts) [] = False"
| "tokens_match (Lit x # ts) (c # s) = (c = x \<and> tokens_match ts s)"
| "tokens_match (CharClass neg m # ts) [] = False"
| "tokens_match (CharClass neg m # ts) (c # s) = ((class_mem c m \<noteq> neg) \<and> tokens_match ts s)"

definition fnmatch :: "string \<Rightarrow> string \<Rightarrow> bool" where
  "fnmatch name pat = tokens_match (glob_tokens pat) name"

text \<open>\<^verbatim>\<open>os.path.basename\<close> of \<^verbatim>\<open>posixpath\<close> and \<^verbatim>\<open>s.rstrip('/')\<close>.\<close>

definition basename :: "string \<Rightarrow> string" where
  "basename p = rev (takeWhile (\<lambda>c. c \<noteq> CHR ''/'') (rev p))"

definition rstrip_slash :: "string \<Rightarrow> string" where
  "rstrip_slash s = rev (dropWhile (\<lambda>c. c = CHR ''/'') (rev s))"

text \<open>\<^verbatim>\<open>_parse_exclusions\<close>: split at commas and newlines, strip, drop empty and comment lines.\<close>

definition parse_exclusions :: "string \<Rightarrow> string list" where
  "parse_exclusions exclude_str =
     filter (\<lambda>line. line \<noteq> [] \<and> \<not> prefix ''#'' line)
       (map strip (split_when (\<lambda>c. c = CHR '','' \<or> c = CHR ''\<newline>'') exclude_str))"

text \<open>
  \<^verbatim>\<open>_is_excluded\<close>. The relative path of the candidate (\<^verbatim>\<open>os.path.relpath\<close>, with
  \<open>/\<close> as separator) and whether it is a directory (\<^verbatim>\<open>os.path.isdir\<close>) are its inputs.
  The parts of a rule: its negation mark, its directory mark and its pattern proper.
\<close>

definition negated :: "string \<Rightarrow> bool" where
  "negated pattern = prefix ''!'' pattern"

definition unnegated :: "string \<Rightarrow> string" where
  "unnegated pattern = (if negated pattern then drop 1 pattern else pattern)"

definition is_dir_pattern :: "string \<Rightarrow> bool" where
  "is_dir_pattern pattern = (unnegated pattern \<noteq> [] \<and> last (unnegated pattern) = CHR ''/'')"

definition pattern_proper :: "string \<Rightarrow> string" where
  "pattern_proper pattern =
     (if is_dir_pattern pattern then rstrip_slash (unnegated pattern) else unnegated pattern)"

text \<open>The body of the loop: the running verdict after one more rule.\<close>

definition exclusion_step :: "string \<Rightarrow> bool \<Rightarrow> bool \<Rightarrow> string \<Rightarrow> bool" where
  "exclusion_step rel is_dir excluded pattern =
     (if is_dir_pattern pattern \<and> \<not> is_dir then excluded
      else if (if CHR ''/'' \<notin> set (pattern_proper pattern)
               then fnmatch (basename rel) (pattern_proper pattern)
               else fnmatch rel (pattern_proper pattern))
      then \<not> negated pattern
      else excluded)"

definition is_excluded :: "string \<Rightarrow> bool \<Rightarrow> string list \<Rightarrow> bool" where
  "is_excluded rel is_dir patterns = foldl (exclusion_step rel is_dir) False patterns"

text \<open>A rule applies to a candidate when the loop reaches its match test and the test holds.\<close>

definition rule_matches :: "string \<Rightarrow> bool \<Rightarrow> string \<Rightarrow> bool" where
  "rule_matches rel is_dir pattern =
     ((is_dir \<or> \<not> is_dir_pattern pattern) \<and>
      (if CHR ''/'' \<notin> set (pattern_proper pattern)
       then fnmatch (basename rel) (pattern_proper pattern)
       else fnmatch rel (pattern_proper pattern)))"

section \<open>Packing in \<^verbatim>\<open>main.py\<close>: \<^verbatim>\<open>_gather_source_files\<close> and \<^verbatim>\<open>_task_extraction\<close>\<close>


definition path_str :: "string list \<Rightarrow> string" where
  "path_str p = join ''/'' p"



text \<open>
  \<^verbatim>\<open>os.path.splitext(p)[1]\<close>: the extension of the last name, from its last dot; dots that
  lead the name do not start an extension.
\<close>

definition splitext_ext :: "string \<Rightarrow> string" where
  "splitext_ext p =
     (let stem = dropWhile (\<lambda>c. c = CHR ''.'') (basename p)
      in if CHR ''.'' \<in> set stem then CHR ''.'' # rev (takeWhile (\<lambda>c. c \<noteq> CHR ''.'') (rev stem))
         else [])"

record extract_stats =
  extracted :: nat
  skipped_type :: nat
  read_error :: nat

text \<open>
  The state of the extraction loop: the records so far, the counters (\<open>read_error\<close> is
  the counter \<^verbatim>\<open>stats["error"]\<close>) and the files that \<^verbatim>\<open>open\<close> was called on. An entry of
  the suffix map is a dictionary of strings; \<open>read\<close> gives the text of a file, or nothing
  when reading raises.
\<close>

record extract_state =
  new_file_data :: "FileInfo list"
  stats :: extract_stats
  opened :: "string list list"

definition dict_get :: "(string \<times> string) list \<Rightarrow> string \<Rightarrow> string \<Rightarrow> string" where
  "dict_get d k dflt = (case map_of d k of None \<Rightarrow> dflt | Some v \<Rightarrow> v)"

definition extraction_step ::
  "(string \<rightharpoonup> (string \<times> string) list) \<Rightarrow> (string list \<rightharpoonup> string) \<Rightarrow> string list
     \<Rightarrow> extract_state \<Rightarrow> string list \<Rightarrow> extract_state" where
  "extraction_step suffix_map read selected_suffixes st fpath =
     (let suffix = lower (splitext_ext (path_str fpath)) in
      if suffix \<notin> set selected_suffixes
      then st\<lparr>stats := (stats st)\<lparr>skipped_type := skipped_type (stats st) + 1\<rparr>\<rparr>
      else (case suffix_map suffix of
              None \<Rightarrow> st
            | Some map_entry \<Rightarrow>
                if map_entry = [] then st
                else (case read fpath of
                        None \<Rightarrow> st\<lparr>stats := (stats st)\<lparr>read_error := read_error (stats st) + 1\<rparr>,
                                    opened := opened st @ [fpath]\<rparr>
                      | Some text \<Rightarrow>
                          st\<lparr>new_file_data := new_file_data st @
                                 [\<lparr>rel_path = path_str fpath, content = text,
                                   language = dict_get map_entry ''language'' ''text'',
                                   comment_symbol = dict_get map_entry ''comment'' ''#''\<rparr>],
                              stats := (stats st)\<lparr>extracted := extracted (stats st) + 1\<rparr>,
                              opened := opened st @ [fpath]\<rparr>)))"

fun extraction_loop ::
  "(string \<rightharpoonup> (string \<times> string) list) \<Rightarrow> (string list \<rightharpoonup> string) \<Rightarrow> (nat \<Rightarrow> bool)
     \<Rightarrow> string list \<Rightarrow> nat \<Rightarrow> string list list \<Rightarrow> extract_state \<Rightarrow> extract_state" where
  "extraction_loop suffix_map read cancelled selected_suffixes i [] st = st"
| "extraction_loop suffix_map read cancelled selected_suffixes i (fpath # rest) st =
     (if cancelled i then st
      else extraction_loop suffix_map read cancelled selected_suffixes (Suc i) rest
             (extraction_step suffix_map read selected_suffixes st fpath))"

definition task_extraction ::
  "(string \<rightharpoonup> (string \<times> string) list) \<Rightarrow> (string list \<rightharpoonup> string) \<Rightarrow> (nat \<Rightarrow> bool)
     \<Rightarrow> string list \<Rightarrow> string list list \<Rightarrow> extract_state" where
  "task_extraction suffix_map read cancelled selected_suffixes all_filepaths =
     extraction_loop suffix_map read cancelled selected_suffixes 0 all_filepaths
       \<lparr>new_file_data = [], stats = \<lparr>extracted = 0, skipped_type = 0, read_error = 0\<rparr>, opened = []\<rparr>"


section \<open>The reconstructor of \<^verbatim>\<open>file_processor.py\<close>\<close>

text \<open>
  \<^verbatim>\<open>constants.CODE_BLOCK_PATTERN\<close> is \<^verbatim>\<open>```(\w+)\n(.*?)\n\s*```\<close>: the language tag is
  not empty.
\<close>

definition fp_match_block :: "string \<Rightarrow> (string \<times> string \<times> string) option" where
  "fp_match_block s =
     (if prefix fence s \<and> takeWhile is_word (drop 3 s) \<noteq> [] then
        (case dropWhile is_word (drop 3 s) of
           [] \<Rightarrow> None
         | c # v \<Rightarrow>
             if c = CHR ''\<newline>'' then
               (case lazy_body v of
                  None \<Rightarrow> None
                | Some (b, r) \<Rightarrow> Some (takeWhile is_word (drop 3 s), b, r))
             else None)
      else None)"

function fp_finditer :: "string \<Rightarrow> (string \<times> string) list" where
  "fp_finditer [] = []"
| "fp_finditer (c # s) =
     (case fp_match_block (c # s) of
        Some (l, b, r) \<Rightarrow> (l, b) # fp_finditer r
      | None \<Rightarrow> fp_finditer s)"
  by pat_completeness auto

lemma fp_match_block_length: "fp_match_block s = Some (l, b, r) \<Longrightarrow> length r < length s"
proof -
  assume a: "fp_match_block s = Some (l, b, r)"
  then obtain c v where d: "dropWhile is_word (drop 3 s) = c # v" and lb: "lazy_body v = Some (b, r)"
    by (auto simp: fp_match_block_def split: if_splits list.splits option.splits)
  have "length (dropWhile is_word (drop 3 s)) \<le> length (drop 3 s)"
    by (rule length_dropWhile_le)
  with d have "length v < length s" by simp
  with lazy_body_length [OF lb] show ?thesis by simp
qed

termination fp_finditer
  by (relation "measure length") (auto dest: fp_match_block_length)

text \<open>
  \<^verbatim>\<open>FIRST_LINE_PATH_COMMENT_PATTERN.match\<close> for \<^verbatim>\<open>^\s*#\s*(\S+)\<close>: group 1, when the line
  is a hash comment with a word after the hash.
\<close>

definition first_line_path_match :: "string \<Rightarrow> string option" where
  "first_line_path_match line =
     (case dropWhile is_space line of
        [] \<Rightarrow> None
      | c # r \<Rightarrow>
          if c = CHR ''#'' \<and> dropWhile is_space r \<noteq> []
          then Some (takeWhile (\<lambda>c. \<not> is_space c) (dropWhile is_space r)) else None)"

text \<open>\<^verbatim>\<open>s.strip(chars)\<close>, and \<^verbatim>\<open>re.sub(r"^[*(]+|[)*]+$", "", s)\<close> on a text without newline.\<close>

definition strip_chars :: "string \<Rightarrow> string \<Rightarrow> string" where
  "strip_chars chars s =
     rev (dropWhile (\<lambda>c. c \<in> set chars) (rev (dropWhile (\<lambda>c. c \<in> set chars) s)))"

definition strip_marks :: "string \<Rightarrow> string" where
  "strip_marks s =
     rev (dropWhile (\<lambda>c. c \<in> set '')*'') (rev (dropWhile (\<lambda>c. c \<in> set ''*('') s)))"

definition extract_path_from_comment :: "string \<Rightarrow> string option" where
  "extract_path_from_comment block_content_with_path =
     (if block_content_with_path = [] then None
      else (case first_line_path_match (strip (first_line_of block_content_with_path)) of
              None \<Rightarrow> None
            | Some g \<Rightarrow>
                if strip g \<noteq> [] \<and> list_ex (\<lambda>c. c \<in> set (strip g)) [CHR ''/'', CHR 0x5C, CHR ''.'', CHR ''_'', CHR ''-'']
                then (let potential_path = strip_chars ''`'' (strip_marks (strip g))
                      in if potential_path \<noteq> [] \<and> \<not> prefix ''#'' potential_path
                         then Some potential_path else None)
                else None))"

text \<open>
  The body of the loop of \<^verbatim>\<open>_parse_content\<close> on a POSIX system (\<^verbatim>\<open>os.sep\<close> is \<open>/\<close>,
  \<^verbatim>\<open>os.path.isabs\<close> asks for a leading \<open>/\<close>): the path and the stored text of an accepted
  block. The stored text is the stripped body, path comment included.
\<close>

definition fp_parse_block :: "string \<times> string \<Rightarrow> (string \<times> string) option" where
  "fp_parse_block m =
     (let block_content_with_path = strip (snd m) in
      case extract_path_from_comment block_content_with_path of
        None \<Rightarrow> None
      | Some rel \<Rightarrow>
          if has_invalid_char rel then None
          else if prefix ''/'' rel \<or> ''..'' \<in> set (split_on CHR ''/'' rel) then None
          else Some (rel, block_content_with_path))"

definition fp_parse_step :: "(string \<times> string) list \<Rightarrow> string \<times> string \<Rightarrow> (string \<times> string) list" where
  "fp_parse_step d m = (case fp_parse_block m of None \<Rightarrow> d | Some kv \<Rightarrow> dict_set d (fst kv) (snd kv))"

definition parse_content :: "string \<Rightarrow> (string \<times> string) list" where
  "parse_content full_content = foldl fp_parse_step [] (fp_finditer full_content)"

text \<open>\<^verbatim>\<open>content.replace('\r\n', '\n').replace('\r', '\n')\<close>.\<close>

fun replace_crlf :: "string \<Rightarrow> string" where
  "replace_crlf (c # d # s) =
     (if c = CHR 0x0D \<and> d = CHR ''\<newline>'' then CHR ''\<newline>'' # replace_crlf s
      else c # replace_crlf (d # s))"
| "replace_crlf s = s"

definition normalize_newlines :: "string \<Rightarrow> string" where
  "normalize_newlines text =
     map (\<lambda>c. if c = CHR 0x0D then CHR ''\<newline>'' else c) (replace_crlf text)"

text \<open>\<^verbatim>\<open>os.path.normpath\<close> of \<^verbatim>\<open>posixpath\<close>.\<close>

fun norm_comps :: "bool \<Rightarrow> string list \<Rightarrow> string list \<Rightarrow> string list" where
  "norm_comps rooted new_comps [] = new_comps"
| "norm_comps rooted new_comps (seg # comps) =
     (if seg = [] \<or> seg = ''.'' then norm_comps rooted new_comps comps
      else if seg \<noteq> ''..'' \<or> (\<not> rooted \<and> new_comps = []) \<or> (new_comps \<noteq> [] \<and> last new_comps = ''..'')
      then norm_comps rooted (new_comps @ [seg]) comps
      else if new_comps \<noteq> [] then norm_comps rooted (butlast new_comps) comps
      else norm_comps rooted new_comps comps)"

definition normpath :: "string \<Rightarrow> string" where
  "normpath path =
     (if path = [] then ''.''
      else (let initial_slashes =
                  (if prefix ''/'' path then (if prefix ''//'' path \<and> \<not> prefix ''///'' path then 2 else 1)
                   else (0::nat));
                p = replicate initial_slashes CHR ''/''
                      @ join ''/'' (norm_comps (0 < initial_slashes) [] (split_on CHR ''/'' path))
            in if p = [] then ''.'' else p))"

text \<open>
  One turn of the writing loop of \<^verbatim>\<open>reconstruct_from_content\<close>: the file system, the
  number of files created and the number of errors. \<open>abs_root\<close> is the absolute form of
  the output root, so the destination is absolute and its absolute form is its normal
  form.
\<close>

definition fp_write_step ::
  "(string \<Rightarrow> bool) \<Rightarrow> string \<Rightarrow> filesystem \<times> nat \<times> nat \<Rightarrow> string \<times> string \<Rightarrow> filesystem \<times> nat \<times> nat" where
  "fp_write_step io_fails abs_root st kv =
     (let path_parts = filter (\<lambda>p. p \<noteq> [] \<and> p \<noteq> ''.'')
            (split_when (\<lambda>c. c = CHR ''/'' \<or> c = CHR 0x5C) (strip_chars [CHR ''/'', CHR 0x5C] (fst kv)));
          full_path = foldl path_join abs_root path_parts
      in if path_parts = [] then (fst st, fst (snd st), snd (snd st) + 1)
         else if \<not> prefix abs_root (normpath full_path) then (fst st, fst (snd st), snd (snd st) + 1)
         else if io_fails full_path then (fst st, fst (snd st), snd (snd st) + 1)
         else (dict_set (fst st) full_path (snd kv), fst (snd st) + 1, snd (snd st)))"

text \<open>
  \<^verbatim>\<open>reconstruct_from_content\<close>: the file system after it and the triple (success, created,
  errors). \<open>root_usable\<close> says that the output root exists or can be created.
\<close>

definition reconstruct_from_content ::
  "bool \<Rightarrow> (string \<Rightarrow> bool) \<Rightarrow> string \<Rightarrow> filesystem \<Rightarrow> string \<Rightarrow> filesystem \<times> bool \<times> nat \<times> nat" where
  "reconstruct_from_content root_usable io_fails abs_root fs text =
     (if \<not> root_usable then (fs, False, 0, 0)
      else (let files_dict = parse_content (normalize_newlines text) in
            if files_dict = [] then (fs, True, 0, 0)
            else (let r = foldl (fp_write_step io_fails abs_root) (fs, 0, 0) files_dict
                  in (fst r, True, fst (snd r), snd (snd r)))))"

section \<open>Packing in \<^verbatim>\<open>file_processor.py\<close>: the block of one file\<close>




definition to_crlf :: "string \<Rightarrow> string" where
  "to_crlf s = concat (map (\<lambda>c. if c = CHR ''\<newline>'' then [CHR 0x0D, CHR ''\<newline>''] else [c]) s)"

definition to_cr :: "string \<Rightarrow> string" where
  "to_cr s = map (\<lambda>c. if c = CHR ''\<newline>'' then CHR 0x0D else c) s"

section \<open>Records that the codec of \<^verbatim>\<open>main.py\<close> carries through\<close>





section \<open>Packing in \<^verbatim>\<open>file_processor.py\<close>: exclusion and the walk of \<^verbatim>\<open>combine_files\<close>\<close>

















section \<open>Example documents and records\<close>

definition two_blocks_doc :: string where
  "two_blocks_doc = ''```python\<newline># a/b.py\<newline>x = 1\<newline>```\<newline>\<newline>```python\<newline># a/b.py\<newline>y = 2\<newline>```\<newline>''"

definition three_blocks_doc :: string where
  "three_blocks_doc = ''```python\<newline># a.py\<newline>x = 1\<newline>```\<newline>\<newline>```python\<newline># b.py\<newline>y = 2\<newline>```\<newline>\<newline>```python\<newline># a.py\<newline>z = 3\<newline>```\<newline>''"


definition example_record :: FileInfo where
  "example_record = \<lparr>rel_path = ''src/main.py'', content = ''print(1)\<newline>'', language = ''python'', comment_symbol = ''#''\<rparr>"

text \<open>An environment without input/output errors and without cancellation.\<close>

definition no_io_error :: "string \<Rightarrow> bool" where
  "no_io_error p = False"

definition never_cancelled :: "nat \<Rightarrow> bool" where
  "never_cancelled i = False"

text \<open>A document of one block whose path comment names the path \<open>p\<close>.\<close>

definition doc_with_path :: "string \<Rightarrow> string" where
  "doc_with_path p = ''```python\<newline># '' @ p @ ''\<newline>print(1)\<newline>```''"


text \<open>The suffix map of the end-to-end example and the tree \<open>build/x.py\<close>.\<close>

definition py_suffix_map :: "string \<rightharpoonup> (string \<times> string) list" where
  "py_suffix_map = [''.py'' \<mapsto> [(''language'', ''python''), (''comment'', ''#'')]]"






text \<open>The paths and stored texts of the blocks that \<^verbatim>\<open>_parse_content\<close> accepts, in document order.\<close>

definition accepted_blocks :: "string \<Rightarrow> (string \<times> string) list" where
  "accepted_blocks t = List.map_filter fp_parse_block (fp_finditer t)"


section \<open>Dictionaries in insertion order\<close>

lemma map_of_dict_set: "map_of (dict_set d k v) = (map_of d)(k \<mapsto> v)"
  by (induction d) (auto simp: fun_eq_iff)

lemma keys_dict_set:
  "map fst (dict_set d k v) = (if k \<in> set (map fst d) then map fst d else map fst d @ [k])"
  by (induction d) force+

lemma keys_foldl_dict_put:
  "map fst (foldl dict_put d kvs) =
     map fst d @ first_occurrences (filter (\<lambda>k. k \<notin> set (map fst d)) (map fst kvs))"
proof (induction kvs arbitrary: d)
  case Nil
  then show ?case by simp
next
  case (Cons kv kvs)
  show ?case
  proof (cases "fst kv \<in> set (map fst d)")
    case True
    then show ?thesis
      using Cons.IH [of "dict_put d kv"] by (simp add: dict_put_def keys_dict_set)
  next
    case False
    have "(\<lambda>k. k \<noteq> fst kv \<and> k \<notin> fst ` set d) = (\<lambda>k. k \<notin> fst ` set d \<and> k \<noteq> fst kv)" by auto
    with False show ?thesis
      using Cons.IH [of "dict_put d kv"] by (simp add: dict_put_def keys_dict_set)
  qed
qed

lemma map_of_foldl_dict_put:
  "map_of (foldl dict_put d kvs) = map_of d ++ map_of (rev kvs)"
proof (induction kvs arbitrary: d)
  case Nil
  then show ?case by simp
next
  case (Cons kv kvs)
  have "map_of (foldl dict_put d (kv # kvs)) = map_of (dict_put d kv) ++ map_of (rev kvs)"
    using Cons.IH by simp
  also have "\<dots> = (map_of d)(fst kv \<mapsto> snd kv) ++ map_of (rev kvs)"
    by (simp add: dict_put_def map_of_dict_set)
  also have "\<dots> = map_of d ++ map_of (rev (kv # kvs))"
    by (rule ext) (simp add: map_add_def split: option.splits)
  finally show ?case .
qed

lemma set_first_occurrences: "set (first_occurrences xs) = set xs"
  by (induction xs rule: first_occurrences.induct) auto

lemma distinct_first_occurrences: "distinct (first_occurrences xs)"
  by (induction xs rule: first_occurrences.induct) (auto simp: set_first_occurrences)

lemma map_of_rev_keyed:
  "map_of (rev (map (\<lambda>x. (f x, x)) xs)) k =
     (if filter (\<lambda>x. f x = k) xs = [] then None else Some (last_with f xs k))"
  by (induction xs) (auto simp: last_with_def map_add_def split: option.splits)

lemma values_by_keys:
  "distinct (map fst d) \<Longrightarrow> map snd d = map (\<lambda>k. the (map_of d k)) (map fst d)"
proof (induction d)
  case Nil
  then show ?case by simp
next
  case (Cons kv d)
  have "map (\<lambda>k. the (map_of (kv # d) k)) (map fst d) = map (\<lambda>k. the (map_of d k)) (map fst d)"
  proof (rule map_cong [OF refl])
    fix k assume "k \<in> set (map fst d)"
    with Cons.prems have "k \<noteq> fst kv" by force
    then show "the (map_of (kv # d) k) = the (map_of d k)" by (cases kv) simp
  qed
  moreover have "map snd d = map (\<lambda>k. the (map_of d k)) (map fst d)"
    using Cons by simp
  ultimately show ?case by (cases kv) simp
qed

lemma foldl_keyed:
  "map snd (foldl dict_put [] (map (\<lambda>x. (f x, x)) xs)) =
     map (last_with f xs) (first_occurrences (map f xs))"
proof -
  let ?kvs = "map (\<lambda>x. (f x, x)) xs"
  let ?d = "foldl dict_put [] ?kvs"
  have keys: "map fst ?d = first_occurrences (map f xs)"
    by (simp add: keys_foldl_dict_put comp_def)
  then have "distinct (map fst ?d)"
    by (simp add: distinct_first_occurrences)
  then have "map snd ?d = map (\<lambda>k. the (map_of ?d k)) (first_occurrences (map f xs))"
    using values_by_keys keys by metis
  also have "\<dots> = map (last_with f xs) (first_occurrences (map f xs))"
  proof (rule map_cong [OF refl])
    fix k assume "k \<in> set (first_occurrences (map f xs))"
    then have "k \<in> f ` set xs" by (simp add: set_first_occurrences)
    then have "filter (\<lambda>x. f x = k) xs \<noteq> []" by (auto simp: filter_empty_conv)
    then show "the (map_of ?d k) = last_with f xs k"
      by (simp add: map_of_foldl_dict_put map_of_rev_keyed)
  qed
  finally show ?thesis .
qed

lemma foldl_parse_step:
  "foldl parse_step d ms =
     foldl dict_put d (map (\<lambda>fi. (rel_path fi, fi)) (List.map_filter parse_block ms))"
  by (induction ms arbitrary: d)
     (auto simp: parse_step_def dict_put_def map_filter_simps split: option.splits)

lemma parse_text_to_tree_eq:
  "strip t \<noteq> [] \<Longrightarrow>
   parse_text_to_tree fd t =
     map (last_with rel_path (accepted_records t))
       (first_occurrences (map rel_path (accepted_records t)))"
  by (simp add: parse_text_to_tree_def foldl_parse_step foldl_keyed accepted_records_def)

lemma last_with_key:
  "k \<in> f ` set xs \<Longrightarrow> f (last_with f xs k) = k \<and> last_with f xs k \<in> set xs"
proof -
  assume "k \<in> f ` set xs"
  then have ne: "filter (\<lambda>x. f x = k) xs \<noteq> []" by (auto simp: filter_empty_conv)
  then have "last (filter (\<lambda>x. f x = k) xs) \<in> set (filter (\<lambda>x. f x = k) xs)"
    by (rule last_in_set)
  then show ?thesis by (simp add: last_with_def)
qed

lemma no_backquote_no_block: "CHR 0x60 \<notin> set t \<Longrightarrow> finditer t = []"
proof (induction t)
  case Nil
  then show ?case by simp
next
  case (Cons c t)
  then have "\<not> prefix fence (c # t)" by (auto simp: fence_def)
  then have "match_block (c # t) = None" by (simp add: match_block_def)
  with Cons show ?case by simp
qed

lemma strip_empty_spaces: "strip t = [] \<Longrightarrow> \<forall>c\<in>set t. is_space c"
proof -
  assume "strip t = []"
  then have a: "\<forall>c\<in>set (dropWhile is_space t). is_space c" by (simp add: strip_def)
  have "dropWhile is_space t = []"
  proof (rule ccontr)
    assume ne: "dropWhile is_space t \<noteq> []"
    then have "\<not> is_space (hd (dropWhile is_space t))" by (rule hd_dropWhile)
    with a ne show False by simp
  qed
  then show ?thesis by simp
qed

lemma blank_no_block: "strip t = [] \<Longrightarrow> finditer t = []"
proof -
  assume "strip t = []"
  then have "\<forall>c\<in>set t. is_space c" by (rule strip_empty_spaces)
  moreover have "\<not> is_space (CHR 0x60)" by (simp add: is_space_def)
  ultimately have "CHR 0x60 \<notin> set t" by auto
  then show ?thesis by (rule no_backquote_no_block)
qed

lemma filter_eq_distinct: "distinct xs \<Longrightarrow> p \<in> set xs \<Longrightarrow> filter (\<lambda>k. k = p) xs = [p]"
  by (induction xs) (auto simp: filter_empty_conv)


lemmas codec_defs = regenerate_combined_text_def block_of_def comment_line_def strip_def is_space_def
  parse_text_to_tree_def match_block_def fence_def is_word_def close_fence_def parse_step_def
  parse_block_def first_line_of_def after_first_line_def path_comment_match_def marker_path_def
  in_marker_class_def accepted_records_def map_filter_simps


lemmas recon_defs = split_on_def task_reconstruction_def reconstruct_step_def has_invalid_char_def path_join_def
  no_io_error_def never_cancelled_def

lemma split_at_newline:
  "CHR ''\<newline>'' \<in> set s \<Longrightarrow> s = first_line_of s @ ''\<newline>'' @ after_first_line s"
proof -
  assume a: "CHR ''\<newline>'' \<in> set s"
  let ?P = "\<lambda>c. c \<noteq> CHR ''\<newline>''"
  from a have "dropWhile ?P s \<noteq> []" by (auto simp: dropWhile_eq_Nil_conv)
  moreover from this have "\<not> ?P (hd (dropWhile ?P s))" by (rule hd_dropWhile)
  ultimately have "dropWhile ?P s = CHR ''\<newline>'' # tl (dropWhile ?P s)"
    by (cases "dropWhile ?P s") auto
  moreover have "s = takeWhile ?P s @ dropWhile ?P s" by simp
  ultimately show ?thesis using a by (simp add: first_line_of_def after_first_line_def)
qed

lemma parsed_record_from_block:
  assumes "strip t \<noteq> []" and "r \<in> set (parse_text_to_tree fd t)"
  shows "\<exists>m \<in> set (finditer t). parse_block m = Some r"
proof -
  let ?recs = "accepted_records t"
  have eq: "parse_text_to_tree fd t = map (last_with rel_path ?recs) (first_occurrences (map rel_path ?recs))"
    using assms(1) by (rule parse_text_to_tree_eq)
  with assms(2) obtain k where "k \<in> rel_path ` set ?recs" and "r = last_with rel_path ?recs k"
    by (auto simp: set_first_occurrences)
  then have "r \<in> set ?recs" using last_with_key [of k rel_path ?recs] by simp
  then show ?thesis
    by (auto simp: accepted_records_def List.map_filter_def)
qed


section \<open>Exclusion and the walk\<close>

lemmas exclusion_defs = is_excluded_def exclusion_step_def is_dir_pattern_def pattern_proper_def
  negated_def unnegated_def fnmatch_def basename_def rstrip_slash_def path_str_def

lemma exclusion_step_eq:
  "exclusion_step rel d e p = (if rule_matches rel d p then \<not> negated p else e)"
  by (simp add: exclusion_step_def rule_matches_def)

lemma is_excluded_snoc:
  "is_excluded rel d (ps @ [p]) = (if rule_matches rel d p then \<not> negated p else is_excluded rel d ps)"
  by (simp add: is_excluded_def exclusion_step_eq)










lemmas extraction_defs = task_extraction_def extraction_step_def splitext_ext_def lower_def lower_char_def
  dict_get_def py_suffix_map_def never_cancelled_def

section \<open>Line endings\<close>









lemmas fp_defs = parse_content_def fp_parse_step_def fp_parse_block_def extract_path_from_comment_def
  first_line_path_match_def strip_chars_def strip_marks_def fp_match_block_def normalize_newlines_def
  to_crlf_def to_cr_def reconstruct_from_content_def fp_write_step_def normpath_def split_on_def
  has_invalid_char_def path_join_def no_io_error_def first_line_of_def strip_def is_space_def
  is_word_def close_fence_def fence_def


section \<open>Lines of a block\<close>






lemma first_line_of_append_newline:
  "first_line_of (s @ CHR ''\<newline>'' # t) = first_line_of s"
  by (simp add: first_line_of_def takeWhile_tail)

lemma first_line_of_no_newline:
  "CHR ''\<newline>'' \<notin> set s \<Longrightarrow> first_line_of s = s"
  by (auto simp: first_line_of_def)

lemma first_line_of_idem: "first_line_of (first_line_of s @ CHR ''\<newline>'' # t) = first_line_of s"
proof -
  have "CHR ''\<newline>'' \<notin> set (first_line_of s)"
    unfolding first_line_of_def using set_takeWhileD by fastforce
  then show ?thesis by (simp add: first_line_of_append_newline first_line_of_no_newline)
qed




section \<open>The round trip of the codec\<close>




































section \<open>Last occurrence wins, first position stays\<close>

lemma last_wins_filter:
  assumes "filter (\<lambda>x. f x = p) xs = [r1, r2]"
  shows "filter (\<lambda>x. f x = p) (map (last_with f xs) (first_occurrences (map f xs))) = [r2]"
proof -
  let ?fo = "first_occurrences (map f xs)"
  have "r1 \<in> set (filter (\<lambda>x. f x = p) xs)" using assms by simp
  then have pin: "p \<in> f ` set xs" by auto
  have key: "\<And>k. k \<in> set ?fo \<Longrightarrow> f (last_with f xs k) = k"
    using last_with_key [of _ f xs] by (simp add: set_first_occurrences)
  have "filter (\<lambda>x. f x = p) (map (last_with f xs) ?fo)
          = map (last_with f xs) (filter (\<lambda>k. k = p) ?fo)"
    unfolding filter_map comp_def
    by (rule arg_cong [where f = "map (last_with f xs)"], rule filter_cong [OF refl]) (simp add: key)
  also have "filter (\<lambda>k. k = p) ?fo = [p]"
  proof -
    have "distinct ?fo" by (rule distinct_first_occurrences)
    moreover have "p \<in> set ?fo" using pin by (simp add: set_first_occurrences)
    ultimately show ?thesis by (rule filter_eq_distinct)
  qed
  finally have "filter (\<lambda>x. f x = p) (map (last_with f xs) ?fo) = [last_with f xs p]" by simp
  moreover have "last_with f xs p = r2" using assms by (simp add: last_with_def)
  ultimately show ?thesis by simp
qed

lemma first_position_general:
  "map f (map (last_with f xs) (first_occurrences (map f xs))) = first_occurrences (map f xs)
   \<and> (\<forall>r \<in> set (map (last_with f xs) (first_occurrences (map f xs))).
         r \<in> set xs \<and> r = last (filter (\<lambda>x. f x = f r) xs))"
proof -
  let ?fo = "first_occurrences (map f xs)"
  have key: "\<And>k. k \<in> set ?fo \<Longrightarrow> f (last_with f xs k) = k \<and> last_with f xs k \<in> set xs"
    using last_with_key [of _ f xs] by (simp add: set_first_occurrences)
  have "map f (map (last_with f xs) ?fo) = map (\<lambda>k. k) ?fo"
    unfolding map_map comp_def by (rule map_cong [OF refl]) (simp add: key)
  then have order: "map f (map (last_with f xs) ?fo) = ?fo" by simp
  have "\<forall>r \<in> set (map (last_with f xs) ?fo). r \<in> set xs \<and> r = last (filter (\<lambda>x. f x = f r) xs)"
  proof
    fix r assume "r \<in> set (map (last_with f xs) ?fo)"
    then obtain k where k: "k \<in> set ?fo" and r: "r = last_with f xs k" by auto
    from key [OF k] r have "f r = k" "r \<in> set xs" by simp_all
    with r show "r \<in> set xs \<and> r = last (filter (\<lambda>x. f x = f r) xs)"
      by (simp add: last_with_def)
  qed
  with order show ?thesis by simp
qed

lemma pairs_by_keys:
  "distinct (map fst d) \<Longrightarrow> d = map (\<lambda>k. (k, the (map_of d k))) (map fst d)"
proof -
  assume di: "distinct (map fst d)"
  have "map fst d = map fst (map (\<lambda>k. (k, the (map_of d k))) (map fst d))" by (simp add: comp_def)
  moreover have "map snd d = map snd (map (\<lambda>k. (k, the (map_of d k))) (map fst d))"
    using values_by_keys [OF di] by (simp add: comp_def)
  ultimately show ?thesis by (metis zip_map_fst_snd)
qed

lemma map_of_rev_pairs:
  "k \<in> fst ` set kvs \<Longrightarrow> (k, the (map_of (rev kvs) k)) = last_with fst kvs k"
proof (induction kvs)
  case Nil
  then show ?case by simp
next
  case (Cons kv kvs)
  show ?case
  proof (cases "k \<in> fst ` set kvs")
    case True
    then have ne: "filter (\<lambda>x. fst x = k) kvs \<noteq> []" by (auto simp: filter_empty_conv)
    from True have "map_of (rev kvs) k \<noteq> None"
      by (metis map_of_eq_None_iff set_rev)
    then have "map_of (rev (kv # kvs)) k = map_of (rev kvs) k"
      by (auto simp: map_add_def split: option.splits)
    with Cons.IH [OF True] ne show ?thesis by (simp add: last_with_def)
  next
    case False
    with Cons.prems have k: "fst kv = k" by auto
    from False have "filter (\<lambda>x. fst x = k) kvs = []" by (auto simp: filter_empty_conv)
    moreover from False have "map_of (rev kvs) k = None"
      by (metis map_of_eq_None_iff set_rev)
    ultimately show ?thesis using k by (cases kv) (simp add: last_with_def map_add_def)
  qed
qed

lemma foldl_pairs:
  "foldl dict_put [] kvs = map (last_with fst kvs) (first_occurrences (map fst kvs))"
proof -
  let ?d = "foldl dict_put [] kvs"
  have keys: "map fst ?d = first_occurrences (map fst kvs)"
    by (simp add: keys_foldl_dict_put)
  then have "distinct (map fst ?d)" by (simp add: distinct_first_occurrences)
  then have "?d = map (\<lambda>k. (k, the (map_of ?d k))) (map fst ?d)" by (rule pairs_by_keys)
  then have "?d = map (\<lambda>k. (k, the (map_of (rev kvs) k))) (first_occurrences (map fst kvs))"
    by (simp add: keys map_of_foldl_dict_put)
  also have "\<dots> = map (last_with fst kvs) (first_occurrences (map fst kvs))"
    by (rule map_cong [OF refl]) (simp add: set_first_occurrences map_of_rev_pairs)
  finally show ?thesis .
qed

lemma foldl_fp_parse_step:
  "foldl fp_parse_step d ms = foldl dict_put d (List.map_filter fp_parse_block ms)"
  by (induction ms arbitrary: d)
     (auto simp: fp_parse_step_def dict_put_def map_filter_simps split: option.splits)

lemma parse_content_eq:
  "parse_content t =
     map (last_with fst (accepted_blocks t)) (first_occurrences (map fst (accepted_blocks t)))"
  by (simp add: parse_content_def foldl_fp_parse_step foldl_pairs accepted_blocks_def)


section \<open>The walk of \<^verbatim>\<open>combine_files\<close>\<close>














section \<open>The claims\<close>

text \<open>
  Claim C1, evaluated on the code. For the block whose path comment is \<open>/abs/path.py\<close>,
  reconstruction into \<open>/out\<close> writes the file \<open>/abs/path.py\<close>, which is not below
  \<open>/out\<close>, and counts it as created, not as an error or an invalid path. The blocks
  commented \<open>../escape.py\<close> and \<open>C:/abs/path.py\<close> are counted as invalid paths and
  nothing is written for them. The reconstructor of \<^verbatim>\<open>file_processor.py\<close> drops all three
  blocks while it parses: it writes nothing for them and returns success with no file
  created and no error counted.
\<close>

theorem absolute_path_written_outside_root:
  "task_reconstruction no_io_error never_cancelled [] ''/out''
       (parse_text_to_tree [] (doc_with_path ''/abs/path.py''))
     = ([(''/abs/path.py'', ''print(1)'')], \<lparr>created = 1, error = 0, invalid_path = 0\<rparr>)
   \<and> \<not> prefix ''/out'' ''/abs/path.py''
   \<and> task_reconstruction no_io_error never_cancelled [] ''/out''
       (parse_text_to_tree [] (doc_with_path ''../escape.py''))
     = ([], \<lparr>created = 0, error = 0, invalid_path = 1\<rparr>)
   \<and> task_reconstruction no_io_error never_cancelled [] ''/out''
       (parse_text_to_tree [] (doc_with_path ''C:/abs/path.py''))
     = ([], \<lparr>created = 0, error = 0, invalid_path = 1\<rparr>)
   \<and> reconstruct_from_content True no_io_error ''/out'' [] (doc_with_path ''/abs/path.py'') = ([], True, 0, 0)
   \<and> reconstruct_from_content True no_io_error ''/out'' [] (doc_with_path ''../escape.py'') = ([], True, 0, 0)
   \<and> reconstruct_from_content True no_io_error ''/out'' [] (doc_with_path ''C:/abs/path.py'') = ([], True, 0, 0)"
proof -
  have a: "task_reconstruction no_io_error never_cancelled [] ''/out''
       (parse_text_to_tree [] (doc_with_path ''/abs/path.py''))
     = ([(''/abs/path.py'', ''print(1)'')], \<lparr>created = 1, error = 0, invalid_path = 0\<rparr>)"
    by (simp add: doc_with_path_def codec_defs recon_defs)
  have b: "\<not> prefix ''/out'' ''/abs/path.py''" by simp
  have c: "task_reconstruction no_io_error never_cancelled [] ''/out''
       (parse_text_to_tree [] (doc_with_path ''../escape.py''))
     = ([], \<lparr>created = 0, error = 0, invalid_path = 1\<rparr>)"
    by (simp add: doc_with_path_def codec_defs recon_defs)
  have d: "task_reconstruction no_io_error never_cancelled [] ''/out''
       (parse_text_to_tree [] (doc_with_path ''C:/abs/path.py''))
     = ([], \<lparr>created = 0, error = 0, invalid_path = 1\<rparr>)"
    by (simp add: doc_with_path_def codec_defs recon_defs)
  have e: "reconstruct_from_content True no_io_error ''/out'' [] (doc_with_path ''/abs/path.py'') = ([], True, 0, 0)"
    by (simp add: doc_with_path_def fp_defs)
  have f: "reconstruct_from_content True no_io_error ''/out'' [] (doc_with_path ''../escape.py'') = ([], True, 0, 0)"
    by (simp add: doc_with_path_def fp_defs)
  have g: "reconstruct_from_content True no_io_error ''/out'' [] (doc_with_path ''C:/abs/path.py'') = ([], True, 0, 0)"
    by (simp add: doc_with_path_def fp_defs)
  from a b c d e f g show ?thesis by (intro conjI)
qed






text \<open>
  Claim C3, as amended. Every record that parsing yields comes from a fenced block of the
  document, and its content is the stripped body of that block after its first line: the
  stripped body is the first line, a newline and the content (or a single line, and the
  content is empty). In the end-to-end example the record \<open>src/main.py\<close> with content
  \<open>print(1)\<close> and a newline serializes to the expected block, parses back with content
  \<open>print(1)\<close> (stripping has removed the final newline), and reconstruction into
  \<open>/out\<close> writes exactly the file \<open>/out/src/main.py\<close> with content \<open>print(1)\<close>; the
  path comment line is not part of it. The reconstructor of \<^verbatim>\<open>file_processor.py\<close> is
  different by design: what it stores for a path is the whole stripped body of a block,
  and in the example it writes the file with the path comment as its first line.
\<close>

theorem content_is_block_after_first_line:
  "(strip t \<noteq> [] \<and> r \<in> set (parse_text_to_tree fd t) \<longrightarrow>
      (\<exists>m \<in> set (finditer t). parse_block m = Some r
         \<and> content r = after_first_line (strip (snd m))
         \<and> (strip (snd m) = first_line_of (strip (snd m)) @ ''\<newline>'' @ content r
              \<or> CHR ''\<newline>'' \<notin> set (strip (snd m)) \<and> content r = [])))
   \<and> regenerate_combined_text [example_record] = ''```python\<newline># src/main.py\<newline>print(1)\<newline>```\<newline>''
   \<and> parse_text_to_tree [] (regenerate_combined_text [example_record]) = [example_record\<lparr>content := ''print(1)''\<rparr>]
   \<and> task_reconstruction no_io_error never_cancelled [] ''/out''
        (parse_text_to_tree [] (regenerate_combined_text [example_record]))
      = ([(''/out/src/main.py'', ''print(1)'')], \<lparr>created = 1, error = 0, invalid_path = 0\<rparr>)
   \<and> (kv \<in> set (parse_content t) \<longrightarrow>
        (\<exists>m \<in> set (fp_finditer t). fp_parse_block m = Some kv \<and> snd kv = strip (snd m)))
   \<and> reconstruct_from_content True no_io_error ''/out'' [] (regenerate_combined_text [example_record])
      = ([(''/out/src/main.py'', ''# src/main.py\<newline>print(1)'')], True, 1, 0)"
proof -
  have general: "strip t \<noteq> [] \<and> r \<in> set (parse_text_to_tree fd t) \<longrightarrow>
      (\<exists>m \<in> set (finditer t). parse_block m = Some r
         \<and> content r = after_first_line (strip (snd m))
         \<and> (strip (snd m) = first_line_of (strip (snd m)) @ ''\<newline>'' @ content r
              \<or> CHR ''\<newline>'' \<notin> set (strip (snd m)) \<and> content r = []))"
  proof
    assume a: "strip t \<noteq> [] \<and> r \<in> set (parse_text_to_tree fd t)"
    then obtain m where m: "m \<in> set (finditer t)" and pb: "parse_block m = Some r"
      using parsed_record_from_block by blast
    from pb have c: "content r = after_first_line (strip (snd m))"
      by (auto simp: parse_block_def Let_def split: option.splits)
    have "strip (snd m) = first_line_of (strip (snd m)) @ ''\<newline>'' @ content r
              \<or> CHR ''\<newline>'' \<notin> set (strip (snd m)) \<and> content r = []"
    proof (cases "CHR ''\<newline>'' \<in> set (strip (snd m))")
      case True
      then show ?thesis using split_at_newline [of "strip (snd m)"] c by simp
    next
      case False
      then show ?thesis using c by (simp add: after_first_line_def)
    qed
    with m pb c show "\<exists>m \<in> set (finditer t). parse_block m = Some r
         \<and> content r = after_first_line (strip (snd m))
         \<and> (strip (snd m) = first_line_of (strip (snd m)) @ ''\<newline>'' @ content r
              \<or> CHR ''\<newline>'' \<notin> set (strip (snd m)) \<and> content r = [])"
      by blast
  qed
  have doc: "regenerate_combined_text [example_record] = ''```python\<newline># src/main.py\<newline>print(1)\<newline>```\<newline>''"
    by (simp add: example_record_def codec_defs)
  have parsed: "parse_text_to_tree [] (regenerate_combined_text [example_record]) = [example_record\<lparr>content := ''print(1)''\<rparr>]"
    unfolding doc by (simp add: example_record_def codec_defs)
  have written: "task_reconstruction no_io_error never_cancelled [] ''/out''
        (parse_text_to_tree [] (regenerate_combined_text [example_record]))
      = ([(''/out/src/main.py'', ''print(1)'')], \<lparr>created = 1, error = 0, invalid_path = 0\<rparr>)"
    unfolding parsed by (simp add: example_record_def recon_defs)
  have fp_general: "kv \<in> set (parse_content t) \<longrightarrow>
        (\<exists>m \<in> set (fp_finditer t). fp_parse_block m = Some kv \<and> snd kv = strip (snd m))"
  proof
    assume "kv \<in> set (parse_content t)"
    then have "kv \<in> set (accepted_blocks t)"
      unfolding parse_content_eq using first_position_general [of fst "accepted_blocks t"] by blast
    then obtain m where m: "m \<in> set (fp_finditer t)" and pb: "fp_parse_block m = Some kv"
      by (auto simp: accepted_blocks_def List.map_filter_def)
    from pb have "snd kv = strip (snd m)"
      by (auto simp: fp_parse_block_def Let_def split: option.splits if_splits)
    with m pb show "\<exists>m \<in> set (fp_finditer t). fp_parse_block m = Some kv \<and> snd kv = strip (snd m)"
      by blast
  qed
  have fp_written: "reconstruct_from_content True no_io_error ''/out'' [] (regenerate_combined_text [example_record])
      = ([(''/out/src/main.py'', ''# src/main.py\<newline>print(1)'')], True, 1, 0)"
    unfolding doc by (simp add: fp_defs)
  from general doc parsed written fp_general fp_written show ?thesis by (intro conjI)
qed

theorem content_is_block_after_first_line_witness:
  "strip (regenerate_combined_text [example_record]) \<noteq> []
   \<and> example_record\<lparr>content := ''print(1)''\<rparr> \<in> set (parse_text_to_tree [] (regenerate_combined_text [example_record]))
   \<and> (\<exists>m \<in> set (finditer (regenerate_combined_text [example_record])).
         strip (snd m) = ''# src/main.py'' @ ''\<newline>'' @ ''print(1)'')"
proof -
  let ?t = "regenerate_combined_text [example_record]"
  let ?r = "example_record\<lparr>content := ''print(1)''\<rparr>"
  have doc: "?t = ''```python\<newline># src/main.py\<newline>print(1)\<newline>```\<newline>''"
    by (simp add: example_record_def codec_defs)
  have h1: "strip ?t \<noteq> []" unfolding doc by (simp add: strip_def is_space_def)
  have h2: "?r \<in> set (parse_text_to_tree [] ?t)"
    unfolding doc by (simp add: example_record_def codec_defs)
  from content_is_block_after_first_line [of ?t ?r "[]"] h1 h2
  obtain m where "m \<in> set (finditer ?t)" and "parse_block m = Some ?r"
    and "strip (snd m) = first_line_of (strip (snd m)) @ ''\<newline>'' @ content ?r
              \<or> CHR ''\<newline>'' \<notin> set (strip (snd m)) \<and> content ?r = []"
    by blast
  moreover have "finditer ?t = [(''python'', ''# src/main.py\<newline>print(1)'')]"
    unfolding doc by (simp add: codec_defs)
  ultimately have "\<exists>m \<in> set (finditer ?t). strip (snd m) = ''# src/main.py'' @ ''\<newline>'' @ ''print(1)''"
    by (simp add: strip_def is_space_def)
  with h1 h2 show ?thesis by blast
qed

text \<open>
  Counterexample to C3 as stated: in the end-to-end example the file written at
  \<open>/out/src/main.py\<close> does not have the content \<open>print(1)\<close> followed by a newline.
\<close>

theorem end_to_end_file_has_no_final_newline:
  "map_of (fst (task_reconstruction no_io_error never_cancelled [] ''/out''
        (parse_text_to_tree [] (regenerate_combined_text [example_record])))) ''/out/src/main.py''
     \<noteq> Some ''print(1)\<newline>''"
  by (simp add: example_record_def codec_defs recon_defs)


text \<open>
  Claim C4. A document in which exactly two accepted blocks name the same relative path
  (such as \<open>a/b.py\<close>) parses to exactly one record for that path, and that record is
  the one of the second block: it carries the second block's content. This holds for the
  parser of \<^verbatim>\<open>main.py\<close> and for \<^verbatim>\<open>_parse_content\<close> of \<^verbatim>\<open>file_processor.py\<close>.
\<close>

theorem duplicate_path_last_wins:
  "(filter (\<lambda>r. rel_path r = p) (accepted_records t) = [r1, r2] \<longrightarrow>
      filter (\<lambda>r. rel_path r = p) (parse_text_to_tree fd t) = [r2])
   \<and> (filter (\<lambda>kv. fst kv = p) (accepted_blocks t) = [b1, b2] \<longrightarrow>
      filter (\<lambda>kv. fst kv = p) (parse_content t) = [b2])"
proof (intro conjI impI)
  assume a: "filter (\<lambda>r. rel_path r = p) (accepted_records t) = [r1, r2]"
  then have "finditer t \<noteq> []" by (auto simp: accepted_records_def map_filter_simps)
  then have "strip t \<noteq> []" using blank_no_block by blast
  then have "parse_text_to_tree fd t =
      map (last_with rel_path (accepted_records t)) (first_occurrences (map rel_path (accepted_records t)))"
    by (rule parse_text_to_tree_eq)
  with last_wins_filter [OF a] show "filter (\<lambda>r. rel_path r = p) (parse_text_to_tree fd t) = [r2]"
    by simp
next
  assume "filter (\<lambda>kv. fst kv = p) (accepted_blocks t) = [b1, b2]"
  then have "filter (\<lambda>kv. fst kv = p)
      (map (last_with fst (accepted_blocks t)) (first_occurrences (map fst (accepted_blocks t)))) = [b2]"
    by (rule last_wins_filter)
  then show "filter (\<lambda>kv. fst kv = p) (parse_content t) = [b2]"
    by (simp only: parse_content_eq)
qed

theorem duplicate_path_last_wins_witness:
  "filter (\<lambda>r. rel_path r = ''a/b.py'') (accepted_records two_blocks_doc) =
     [\<lparr>rel_path = ''a/b.py'', content = ''x = 1'', language = ''python'', comment_symbol = ''#''\<rparr>,
      \<lparr>rel_path = ''a/b.py'', content = ''y = 2'', language = ''python'', comment_symbol = ''#''\<rparr>]
   \<and> filter (\<lambda>r. rel_path r = ''a/b.py'') (parse_text_to_tree [] two_blocks_doc) =
     [\<lparr>rel_path = ''a/b.py'', content = ''y = 2'', language = ''python'', comment_symbol = ''#''\<rparr>]
   \<and> filter (\<lambda>kv. fst kv = ''a/b.py'') (accepted_blocks two_blocks_doc) =
     [(''a/b.py'', ''# a/b.py\<newline>x = 1''), (''a/b.py'', ''# a/b.py\<newline>y = 2'')]
   \<and> filter (\<lambda>kv. fst kv = ''a/b.py'') (parse_content two_blocks_doc) =
     [(''a/b.py'', ''# a/b.py\<newline>y = 2'')]"
proof -
  have h: "filter (\<lambda>r. rel_path r = ''a/b.py'') (accepted_records two_blocks_doc) =
     [\<lparr>rel_path = ''a/b.py'', content = ''x = 1'', language = ''python'', comment_symbol = ''#''\<rparr>,
      \<lparr>rel_path = ''a/b.py'', content = ''y = 2'', language = ''python'', comment_symbol = ''#''\<rparr>]"
    by (simp add: two_blocks_doc_def codec_defs)
  have g: "filter (\<lambda>kv. fst kv = ''a/b.py'') (accepted_blocks two_blocks_doc) =
     [(''a/b.py'', ''# a/b.py\<newline>x = 1''), (''a/b.py'', ''# a/b.py\<newline>y = 2'')]"
    by (simp add: two_blocks_doc_def accepted_blocks_def map_filter_simps fp_defs)
  note t = duplicate_path_last_wins [of "''a/b.py''" two_blocks_doc _ _ "[]"]
  from t h have a: "filter (\<lambda>r. rel_path r = ''a/b.py'') (parse_text_to_tree [] two_blocks_doc) =
     [\<lparr>rel_path = ''a/b.py'', content = ''y = 2'', language = ''python'', comment_symbol = ''#''\<rparr>]"
    by blast
  from t g have b: "filter (\<lambda>kv. fst kv = ''a/b.py'') (parse_content two_blocks_doc) =
     [(''a/b.py'', ''# a/b.py\<newline>y = 2'')]"
    by blast
  from h a g b show ?thesis by (intro conjI)
qed





text \<open>
  Claim C6. The exclusion text \<open>*.log, !important.log\<close> parses to the rules \<open>*.log\<close> and
  \<open>!important.log\<close> in that order; under these rules the file \<open>important.log\<close> is not
  excluded and the file \<open>other.log\<close> is excluded. In general a rule that matches sets
  the verdict to the opposite of its negation mark and a rule that does not match leaves
  the verdict alone, so a path is excluded exactly when some rule matches it and the last
  rule that matches it is not negated.
\<close>

theorem later_negation_wins:
  "parse_exclusions ''*.log, !important.log'' = [''*.log'', ''!important.log'']
   \<and> \<not> is_excluded ''important.log'' False [''*.log'', ''!important.log'']
   \<and> is_excluded ''other.log'' False [''*.log'', ''!important.log'']
   \<and> is_excluded rel d (ps @ [p]) =
       (if rule_matches rel d p then \<not> negated p else is_excluded rel d ps)
   \<and> is_excluded rel d ps =
       (filter (rule_matches rel d) ps \<noteq> [] \<and> \<not> negated (last (filter (rule_matches rel d) ps)))"
proof -
  have a: "parse_exclusions ''*.log, !important.log'' = [''*.log'', ''!important.log'']"
    by (simp add: parse_exclusions_def strip_def is_space_def)
  have b: "\<not> is_excluded ''important.log'' False [''*.log'', ''!important.log'']"
    by (simp add: exclusion_defs)
  have c: "is_excluded ''other.log'' False [''*.log'', ''!important.log'']"
    by (simp add: exclusion_defs)
  have d: "is_excluded rel d ps =
       (filter (rule_matches rel d) ps \<noteq> [] \<and> \<not> negated (last (filter (rule_matches rel d) ps)))"
  proof (induction ps rule: rev_induct)
    case Nil
    then show ?case by (simp add: is_excluded_def)
  next
    case (snoc p ps)
    then show ?case by (simp add: is_excluded_snoc)
  qed
  from a b c d is_excluded_snoc [of rel d ps p] show ?thesis by blast
qed











text \<open>
  Claim C10. The parsed collection lists the paths in the order of their first
  occurrences in the document, so a path named by several blocks keeps the position of
  its first block and every other record keeps its document order; each record of the
  collection is the one of the last block that names its path. This holds for the parser
  of \<^verbatim>\<open>main.py\<close> and for \<^verbatim>\<open>_parse_content\<close> of \<^verbatim>\<open>file_processor.py\<close>.
\<close>

theorem duplicate_keeps_first_position:
  "(strip t \<noteq> [] \<longrightarrow>
      map rel_path (parse_text_to_tree fd t) = first_occurrences (map rel_path (accepted_records t))
      \<and> (\<forall>r \<in> set (parse_text_to_tree fd t).
            r = last (filter (\<lambda>x. rel_path x = rel_path r) (accepted_records t))))
   \<and> map fst (parse_content t) = first_occurrences (map fst (accepted_blocks t))
   \<and> (\<forall>kv \<in> set (parse_content t).
         kv = last (filter (\<lambda>x. fst x = fst kv) (accepted_blocks t)))"
proof (intro conjI impI)
  assume "strip t \<noteq> []"
  then have eq: "parse_text_to_tree fd t =
      map (last_with rel_path (accepted_records t)) (first_occurrences (map rel_path (accepted_records t)))"
    by (rule parse_text_to_tree_eq)
  show "map rel_path (parse_text_to_tree fd t) = first_occurrences (map rel_path (accepted_records t))"
    unfolding eq using first_position_general [of rel_path "accepted_records t"] by (rule conjunct1)
  show "\<forall>r \<in> set (parse_text_to_tree fd t).
            r = last (filter (\<lambda>x. rel_path x = rel_path r) (accepted_records t))"
    unfolding eq using first_position_general [of rel_path "accepted_records t"] by blast
next
  show "map fst (parse_content t) = first_occurrences (map fst (accepted_blocks t))"
    unfolding parse_content_eq using first_position_general [of fst "accepted_blocks t"] by (rule conjunct1)
  show "\<forall>kv \<in> set (parse_content t). kv = last (filter (\<lambda>x. fst x = fst kv) (accepted_blocks t))"
    unfolding parse_content_eq using first_position_general [of fst "accepted_blocks t"] by blast
qed

theorem duplicate_keeps_first_position_witness:
  "strip three_blocks_doc \<noteq> []
   \<and> map rel_path (accepted_records three_blocks_doc) = [''a.py'', ''b.py'', ''a.py'']
   \<and> map rel_path (parse_text_to_tree [] three_blocks_doc) = [''a.py'', ''b.py'']
   \<and> parse_text_to_tree [] three_blocks_doc =
     [\<lparr>rel_path = ''a.py'', content = ''z = 3'', language = ''python'', comment_symbol = ''#''\<rparr>,
      \<lparr>rel_path = ''b.py'', content = ''y = 2'', language = ''python'', comment_symbol = ''#''\<rparr>]
   \<and> parse_content three_blocks_doc =
     [(''a.py'', ''# a.py\<newline>z = 3''), (''b.py'', ''# b.py\<newline>y = 2'')]"
proof -
  have h: "strip three_blocks_doc \<noteq> []"
    by (simp add: three_blocks_doc_def strip_def is_space_def)
  have a: "map rel_path (accepted_records three_blocks_doc) = [''a.py'', ''b.py'', ''a.py'']"
    by (simp add: three_blocks_doc_def codec_defs)
  have p: "parse_text_to_tree [] three_blocks_doc =
     [\<lparr>rel_path = ''a.py'', content = ''z = 3'', language = ''python'', comment_symbol = ''#''\<rparr>,
      \<lparr>rel_path = ''b.py'', content = ''y = 2'', language = ''python'', comment_symbol = ''#''\<rparr>]"
    by (simp add: three_blocks_doc_def codec_defs)
  have q: "parse_content three_blocks_doc =
     [(''a.py'', ''# a.py\<newline>z = 3''), (''b.py'', ''# b.py\<newline>y = 2'')]"
    by (simp add: three_blocks_doc_def fp_defs)
  from duplicate_keeps_first_position [of three_blocks_doc "[]"] h have
    "map rel_path (parse_text_to_tree [] three_blocks_doc) = first_occurrences (map rel_path (accepted_records three_blocks_doc))"
    by blast
  with a have o: "map rel_path (parse_text_to_tree [] three_blocks_doc) = [''a.py'', ''b.py'']" by simp
  from h a o p q show ?thesis by (intro conjI)
qed

end
